theory Spec2Isabelle
  imports Complex_Main "HOL-Library.Char_ord" "HOL-Library.List_Lexorder"
begin

section \<open>Text\<close>

text \<open>
  Python text is modelled as \<^typ>\<open>string\<close>, one \<^typ>\<open>char\<close> per code point, over the
  code points U+0000 to U+00FF. \<open>chr_upper\<close> and \<open>chr_lower\<close> are \<open>str.upper\<close> and
  \<open>str.lower\<close> on one code point of that range: the letters a to z and the Latin-1
  letters U+00E0 to U+00FE (without U+00F7) differ from their capitals in bit 5. The three
  code points whose capital lies outside the range (U+00B5, U+00DF, U+00FF) are left as
  they are; none of their capitals holds a letter of the words searched below.
\<close>

fun chr_upper :: "char \<Rightarrow> char" where
  "chr_upper (Char b0 b1 b2 b3 b4 b5 b6 b7) =
     (let n = (of_char (Char b0 b1 b2 b3 b4 b5 b6 b7) :: nat)
      in if (97 \<le> n \<and> n \<le> 122) \<or> (224 \<le> n \<and> n \<le> 254 \<and> n \<noteq> 247)
         then Char b0 b1 b2 b3 b4 False b6 b7
         else Char b0 b1 b2 b3 b4 b5 b6 b7)"

fun chr_lower :: "char \<Rightarrow> char" where
  "chr_lower (Char b0 b1 b2 b3 b4 b5 b6 b7) =
     (let n = (of_char (Char b0 b1 b2 b3 b4 b5 b6 b7) :: nat)
      in if (65 \<le> n \<and> n \<le> 90) \<or> (192 \<le> n \<and> n \<le> 222 \<and> n \<noteq> 215)
         then Char b0 b1 b2 b3 b4 True b6 b7
         else Char b0 b1 b2 b3 b4 b5 b6 b7)"

text \<open>\<open>str.upper\<close>, and the substring test \<open>sub in s\<close>.\<close>

definition upper :: "string \<Rightarrow> string" where
  "upper s = map chr_upper s"

fun str_in :: "string \<Rightarrow> string \<Rightarrow> bool" where
  "str_in sub [] = (sub = [])"
| "str_in sub (c # cs) = (take (length sub) (c # cs) = sub \<or> str_in sub cs)"

section \<open>Transformation stage (\<open>dagster_pipeline/assets/transform.py\<close>)\<close>

subsection \<open>Stream category\<close>

definition derive_stream_category :: "string \<Rightarrow> string" where
  "derive_stream_category stream =
     (let stream_upper = upper stream
      in if str_in ''IMG'' stream_upper then ''IMG''
         else if str_in ''CMG'' stream_upper then ''CMG''
         else ''All'')"

text \<open>
  The specification's wording, "contains IMG in any case": somewhere in the label stand
  three consecutive characters, each of them the small or the capital form of the letter.
\<close>

definition contains_any_case :: "char set \<Rightarrow> char set \<Rightarrow> char set \<Rightarrow> string \<Rightarrow> bool" where
  "contains_any_case A B C s \<longleftrightarrow>
     (\<exists>pre a b c post. s = pre @ [a, b, c] @ post \<and> a \<in> A \<and> b \<in> B \<and> c \<in> C)"

definition contains_IMG :: "string \<Rightarrow> bool" where
  "contains_IMG s \<longleftrightarrow>
     contains_any_case {CHR ''i'', CHR ''I''} {CHR ''m'', CHR ''M''} {CHR ''g'', CHR ''G''} s"

definition contains_CMG :: "string \<Rightarrow> bool" where
  "contains_CMG s \<longleftrightarrow>
     contains_any_case {CHR ''c'', CHR ''C''} {CHR ''m'', CHR ''M''} {CHR ''g'', CHR ''G''} s"

subsection \<open>Frames and errors\<close>

text \<open>
  What a stage raises: the \<open>KeyError\<close> of a frame operation that is asked for columns the
  frame does not have (with the missing columns), the \<open>ValueError\<close> of \<open>melt\<close> when the
  name of its value column is already a column of the frame, and the two validation
  failures of the institution stage (with the count found).
\<close>

datatype error =
    KeyError "string list"
  | ValueError string
  | Expected_18_institutions nat
  | Duplicate_institution_IDs

text \<open>
  A cell of a frame is missing (\<open>NaN\<close>; the reader of the CSV file yields it for an empty
  field), a text or a number. A frame has its column labels and its rows; a row gives the
  cell of each column.
\<close>

datatype cell = NaN | Str string | Num int

record dataframe =
  columns :: "string list"
  data :: "(string \<Rightarrow> cell) list"

subsection \<open>Institutions\<close>

definition FRENCH_SCHOOLS :: "string set" where
  "FRENCH_SCHOOLS =
     {''Universit'' @ [CHR 0xE9] @ '' Laval'',
      ''Universit'' @ [CHR 0xE9] @ '' de Sherbrooke'',
      ''Universit'' @ [CHR 0xE9] @ '' de Montr'' @ [CHR 0xE9] @ ''al''}"

text \<open>A row of the program master table, with the two columns the stage reads.\<close>

record master_row =
  school_id :: int
  school_name :: string

record institution =
  inst_id :: int
  inst_name :: string
  language :: string

text \<open>
  \<open>groupby("school_name")["school_id"].min().reset_index()\<close>: one row per distinct name, in
  the order of the names, with the least id of the name's rows.
\<close>

definition groupby_min :: "master_row list \<Rightarrow> (string \<times> int) list" where
  "groupby_min df =
     map (\<lambda>n. (n, min_list (map school_id (filter (\<lambda>r. school_name r = n) df))))
       (sort (remdups (map school_name df)))"

definition stg_institutions :: "master_row list \<Rightarrow> error + institution list" where
  "stg_institutions raw_programs =
     (let institutions =
            map (\<lambda>(n, i). \<lparr> inst_id = i, inst_name = n,
                             language = (if n \<in> FRENCH_SCHOOLS then ''fr'' else ''en'') \<rparr>)
              (groupby_min raw_programs)
      in if length institutions \<noteq> 18 then Inl (Expected_18_institutions (length institutions))
         else if \<not> distinct (map inst_id institutions) then Inl Duplicate_institution_IDs
         else Inr institutions)"

text \<open>
  A program master table of twenty-one rows over eighteen schools: one French school
  occurs under the ids 30 and 20, the school S01 under the ids 1 and 40, and the first row
  occurs twice.
\<close>

definition ex18 :: "master_row list" where
  "ex18 =
     [\<lparr> school_id = 30, school_name = ''Universit'' @ [CHR 0xE9] @ '' Laval'' \<rparr>,
      \<lparr> school_id = 1, school_name = ''S01'' \<rparr>, \<lparr> school_id = 2, school_name = ''S02'' \<rparr>,
      \<lparr> school_id = 3, school_name = ''S03'' \<rparr>, \<lparr> school_id = 4, school_name = ''S04'' \<rparr>,
      \<lparr> school_id = 5, school_name = ''S05'' \<rparr>, \<lparr> school_id = 6, school_name = ''S06'' \<rparr>,
      \<lparr> school_id = 7, school_name = ''S07'' \<rparr>, \<lparr> school_id = 8, school_name = ''S08'' \<rparr>,
      \<lparr> school_id = 9, school_name = ''S09'' \<rparr>, \<lparr> school_id = 10, school_name = ''S10'' \<rparr>,
      \<lparr> school_id = 11, school_name = ''S11'' \<rparr>, \<lparr> school_id = 12, school_name = ''S12'' \<rparr>,
      \<lparr> school_id = 13, school_name = ''S13'' \<rparr>, \<lparr> school_id = 14, school_name = ''S14'' \<rparr>,
      \<lparr> school_id = 15, school_name = ''S15'' \<rparr>, \<lparr> school_id = 16, school_name = ''S16'' \<rparr>,
      \<lparr> school_id = 17, school_name = ''S17'' \<rparr>,
      \<lparr> school_id = 20, school_name = ''Universit'' @ [CHR 0xE9] @ '' Laval'' \<rparr>,
      \<lparr> school_id = 40, school_name = ''S01'' \<rparr>,
      \<lparr> school_id = 30, school_name = ''Universit'' @ [CHR 0xE9] @ '' Laval'' \<rparr>]"

definition ex18_institutions :: "institution list" where
  "ex18_institutions =
     map (\<lambda>k. \<lparr> inst_id = int k, inst_name = ''S0'' @ [char_of (48 + k)], language = ''en'' \<rparr>)
       [1 ..< 10]
     @ map (\<lambda>k. \<lparr> inst_id = int k, inst_name = ''S1'' @ [char_of (38 + k)], language = ''en'' \<rparr>)
       [10 ..< 18]
     @ [\<lparr> inst_id = 20, inst_name = ''Universit'' @ [CHR 0xE9] @ '' Laval'', language = ''fr'' \<rparr>]"

subsection \<open>Sections\<close>

definition SECTION_COLUMNS :: "string list" where
  "SECTION_COLUMNS =
     [''program_name'', ''match_iteration_name'', ''program_contracts'',
      ''general_instructions'', ''supporting_documentation_information'',
      ''review_process'', ''interviews'', ''selection_criteria'', ''program_highlights'',
      ''program_curriculum'', ''training_sites'', ''additional_information'',
      ''return_of_service'', ''faq'', ''summary_of_changes'']"

text \<open>
  \<open>melt\<close> with one id column: for each value column in turn, one row per row of the frame,
  holding the id cell, the name of the value column and its cell. A frame that already has
  a column of the name given to the value column raises \<open>ValueError\<close>; after that check,
  columns the frame lacks raise \<open>KeyError\<close>.
\<close>

definition melt ::
  "string \<Rightarrow> string list \<Rightarrow> string \<Rightarrow> dataframe \<Rightarrow> error + (cell \<times> string \<times> cell) list"
where
  "melt id_var value_vars value_name df =
     (if value_name \<in> set (columns df) then Inl (ValueError value_name)
      else
        let missing = filter (\<lambda>c. c \<notin> set (columns df)) (id_var # value_vars)
        in if missing \<noteq> [] then Inl (KeyError missing)
           else Inr (concat (map (\<lambda>v. map (\<lambda>r. (r id_var, v, r v)) (data df)) value_vars)))"

text \<open>
  The stage: melt, drop the rows whose content is missing, rename the id column. A row of
  the result is (program_id, section_name, content).
\<close>

definition stg_sections :: "dataframe \<Rightarrow> error + (cell \<times> string \<times> cell) list" where
  "stg_sections raw_sections =
     (case melt ''program_description_id'' SECTION_COLUMNS ''content'' raw_sections of
        Inl e \<Rightarrow> Inl e
      | Inr melted \<Rightarrow> Inr (filter (\<lambda>(pid, section_name, content). content \<noteq> NaN) melted))"

text \<open>A row of a frame from the cells of its columns; a column not listed is missing.\<close>

definition frame_row :: "(string \<times> cell) list \<Rightarrow> string \<Rightarrow> cell" where
  "frame_row kvs c = (case map_of kvs c of None \<Rightarrow> NaN | Some v \<Rightarrow> v)"

section \<open>Load stage (\<open>dagster_pipeline/assets/load.py\<close>, \<open>assets/embeddings.py\<close>)\<close>

subsection \<open>The database\<close>

text \<open>
  The five tables of \<open>models/database.py\<close>. A row holds the columns the stages write;
  \<open>created_at\<close> is the wall clock at the time of the insert and is left out. The ids of
  descriptions and embeddings are not written by the stages: the database draws them from
  the sequence of the table, whose next value is part of the state. A table is the list of
  its rows in the order of insertion. Vectors are lists of rationals.
\<close>

datatype table = Disciplines | Institutions | Programs | Descriptions | Embeddings

record discipline =
  disc_id :: int
  disc_name :: string

record program =
  prog_id :: int
  prog_discipline_id :: int
  prog_institution_id :: int
  prog_name :: string
  prog_site :: string
  prog_stream :: string
  prog_stream_category :: string
  prog_quota :: "int option"
  prog_accreditation :: "string option"
  prog_source_url :: string

record description =
  desc_id :: nat
  desc_program_id :: int
  desc_section_name :: string
  desc_content :: string

record embedding_row =
  emb_id :: nat
  emb_program_id :: int
  chunk_index :: nat
  emb_chunk_text :: string
  embedding :: "rat list"

record database =
  disciplines :: "discipline list"
  institutions :: "institution list"
  programs :: "program list"
  program_descriptions :: "description list"
  program_embeddings :: "embedding_row list"
  descriptions_seq :: nat
  embeddings_seq :: nat

datatype db_error = ForeignKeyViolation table | UniqueViolation table

text \<open>
  The foreign keys: a program refers to its discipline and its institution, a description
  and an embedding to their program. \<open>referenced t db\<close> holds when some row of another
  table refers to a row of table \<open>t\<close>; deleting the rows of \<open>t\<close> then violates the foreign key.
\<close>

fun referenced :: "table \<Rightarrow> database \<Rightarrow> bool" where
  "referenced Disciplines db =
     (\<exists>p \<in> set (programs db). prog_discipline_id p \<in> set (map disc_id (disciplines db)))"
| "referenced Institutions db =
     (\<exists>p \<in> set (programs db). prog_institution_id p \<in> set (map inst_id (institutions db)))"
| "referenced Programs db =
     ((\<exists>d \<in> set (program_descriptions db). desc_program_id d \<in> set (map prog_id (programs db)))
      \<or> (\<exists>e \<in> set (program_embeddings db). emb_program_id e \<in> set (map prog_id (programs db))))"
| "referenced Descriptions db = False"
| "referenced Embeddings db = False"

fun truncate_table :: "table \<Rightarrow> database \<Rightarrow> database" where
  "truncate_table Disciplines db = db\<lparr>disciplines := []\<rparr>"
| "truncate_table Institutions db = db\<lparr>institutions := []\<rparr>"
| "truncate_table Programs db = db\<lparr>programs := []\<rparr>"
| "truncate_table Descriptions db = db\<lparr>program_descriptions := []\<rparr>"
| "truncate_table Embeddings db = db\<lparr>program_embeddings := []\<rparr>"

text \<open>
  The statements a stage issues. \<open>Delete t\<close> is \<open>session.query(T).delete()\<close>;
  \<open>Drop_Create_Embeddings\<close> drops the embedding table and creates it again, with a new
  sequence; an insert is \<open>session.add_all(records)\<close>, flushed by the commit after it.
\<close>

datatype statement =
    Delete table
  | Drop_Create_Embeddings
  | Commit
  | Insert_Disciplines "discipline list"
  | Insert_Institutions "institution list"
  | Insert_Programs "program list"
  | Insert_Descriptions "(int \<times> string \<times> string) list"
  | Insert_Embeddings "(int \<times> nat \<times> string \<times> rat list) list"
  | Create_Index

text \<open>Rows of a serial table take the next values of its sequence, in order.\<close>

definition number_descriptions :: "nat \<Rightarrow> (int \<times> string \<times> string) list \<Rightarrow> description list" where
  "number_descriptions seq recs =
     map (\<lambda>(k, r).
            \<lparr> desc_id = k, desc_program_id = fst r, desc_section_name = fst (snd r),
              desc_content = snd (snd r) \<rparr>)
       (zip [seq ..< seq + length recs] recs)"

definition number_embeddings ::
  "nat \<Rightarrow> (int \<times> nat \<times> string \<times> rat list) list \<Rightarrow> embedding_row list" where
  "number_embeddings seq recs =
     map (\<lambda>(k, r).
            \<lparr> emb_id = k, emb_program_id = fst r, chunk_index = fst (snd r),
              emb_chunk_text = fst (snd (snd r)), embedding = snd (snd (snd r)) \<rparr>)
       (zip [seq ..< seq + length recs] recs)"

text \<open>
  One statement on the database: the new state, or the integrity error the database
  raises. A primary key (and the name of an institution) must stay unique; a foreign key
  must name an existing row.
\<close>

fun exec :: "statement \<Rightarrow> database \<Rightarrow> db_error + database" where
  "exec (Delete t) db =
     (if referenced t db then Inl (ForeignKeyViolation t) else Inr (truncate_table t db))"
| "exec Drop_Create_Embeddings db = Inr (db\<lparr>program_embeddings := [], embeddings_seq := 1\<rparr>)"
| "exec Commit db = Inr db"
| "exec (Insert_Disciplines recs) db =
     (if \<not> distinct (map disc_id (disciplines db @ recs)) then Inl (UniqueViolation Disciplines)
      else Inr (db\<lparr>disciplines := disciplines db @ recs\<rparr>))"
| "exec (Insert_Institutions recs) db =
     (if \<not> distinct (map inst_id (institutions db @ recs))
          \<or> \<not> distinct (map inst_name (institutions db @ recs))
      then Inl (UniqueViolation Institutions)
      else Inr (db\<lparr>institutions := institutions db @ recs\<rparr>))"
| "exec (Insert_Programs recs) db =
     (if \<not> distinct (map prog_id (programs db @ recs)) then Inl (UniqueViolation Programs)
      else if \<exists>p \<in> set recs. prog_discipline_id p \<notin> set (map disc_id (disciplines db))
                \<or> prog_institution_id p \<notin> set (map inst_id (institutions db))
      then Inl (ForeignKeyViolation Programs)
      else Inr (db\<lparr>programs := programs db @ recs\<rparr>))"
| "exec (Insert_Descriptions recs) db =
     (if \<exists>r \<in> set recs. fst r \<notin> set (map prog_id (programs db))
      then Inl (ForeignKeyViolation Descriptions)
      else Inr (db\<lparr>program_descriptions :=
                    program_descriptions db @ number_descriptions (descriptions_seq db) recs,
                  descriptions_seq := descriptions_seq db + length recs\<rparr>))"
| "exec (Insert_Embeddings recs) db =
     (if \<exists>r \<in> set recs. fst r \<notin> set (map prog_id (programs db))
      then Inl (ForeignKeyViolation Embeddings)
      else Inr (db\<lparr>program_embeddings :=
                    program_embeddings db @ number_embeddings (embeddings_seq db) recs,
                  embeddings_seq := embeddings_seq db + length recs\<rparr>))"
| "exec Create_Index db = Inr db"

text \<open>A stage is the list of its statements; the first error ends it.\<close>

fun run :: "statement list \<Rightarrow> database \<Rightarrow> db_error + database" where
  "run [] db = Inr db"
| "run (s # ss) db = (case exec s db of Inl e \<Rightarrow> Inl e | Inr db' \<Rightarrow> run ss db')"

subsection \<open>The stages\<close>

text \<open>\<open>records[i : i + batch_size]\<close> for \<open>i\<close> in \<open>range(0, len(records), batch_size)\<close>.\<close>

function batches :: "nat \<Rightarrow> 'a list \<Rightarrow> 'a list list" where
  "batches n xs = (if n = 0 \<or> xs = [] then [] else take n xs # batches n (drop n xs))"
  by pat_completeness auto
termination
  by (relation "measure (\<lambda>(n, xs). length xs)") auto

declare batches.simps [simp del]

definition db_disciplines :: "discipline list \<Rightarrow> statement list" where
  "db_disciplines stg_disciplines =
     [Delete Embeddings, Delete Descriptions, Delete Programs, Delete Institutions,
      Delete Disciplines, Commit, Insert_Disciplines stg_disciplines, Commit]"

definition db_institutions :: "institution list \<Rightarrow> statement list" where
  "db_institutions stg_insts =
     [Delete Embeddings, Delete Descriptions, Delete Programs, Delete Institutions, Commit,
      Insert_Institutions stg_insts, Commit]"

definition db_programs :: "program list \<Rightarrow> statement list" where
  "db_programs stg_programs =
     [Delete Embeddings, Delete Descriptions, Delete Programs, Commit,
      Insert_Programs stg_programs, Commit]"

definition db_descriptions :: "(int \<times> string \<times> string) list \<Rightarrow> statement list" where
  "db_descriptions stg_secs =
     [Delete Descriptions, Commit]
     @ concat (map (\<lambda>batch. [Insert_Descriptions batch, Commit]) (batches 1000 stg_secs))"

text \<open>
  The embedding stage. A chunk is (program_id, chunk_index, chunk_text); the embedding
  model is a collaborator, a function from a text to its vector.
\<close>

definition embed ::
  "(string \<Rightarrow> rat list) \<Rightarrow> int \<times> nat \<times> string \<Rightarrow> int \<times> nat \<times> string \<times> rat list" where
  "embed encode chunk =
     (fst chunk, fst (snd chunk), snd (snd chunk), encode (snd (snd chunk)))"

definition db_embeddings ::
  "(string \<Rightarrow> rat list) \<Rightarrow> (int \<times> nat \<times> string) list \<Rightarrow> statement list" where
  "db_embeddings encode chunked_documents =
     [Drop_Create_Embeddings, Commit]
     @ concat (map (\<lambda>batch. [Insert_Embeddings batch, Commit])
         (batches 500 (map (embed encode) chunked_documents)))
     @ [Create_Index, Commit]"

text \<open>The staged input of a whole run, and the full load: the five stages in dependency order.\<close>

record staged =
  staged_disciplines :: "discipline list"
  staged_institutions :: "institution list"
  staged_programs :: "program list"
  staged_sections :: "(int \<times> string \<times> string) list"
  staged_chunks :: "(int \<times> nat \<times> string) list"


text \<open>The order of the statements of a stage.\<close>

fun is_deletion :: "statement \<Rightarrow> bool" where
  "is_deletion (Delete t) = True"
| "is_deletion Drop_Create_Embeddings = True"
| "is_deletion s = False"

fun is_insert :: "statement \<Rightarrow> bool" where
  "is_insert (Insert_Disciplines r) = True"
| "is_insert (Insert_Institutions r) = True"
| "is_insert (Insert_Programs r) = True"
| "is_insert (Insert_Descriptions r) = True"
| "is_insert (Insert_Embeddings r) = True"
| "is_insert s = False"

fun deleted_table :: "statement \<Rightarrow> table list" where
  "deleted_table (Delete t) = [t]"
| "deleted_table Drop_Create_Embeddings = [Embeddings]"
| "deleted_table s = []"

definition reverse_dependency_order :: "table list" where
  "reverse_dependency_order = [Embeddings, Descriptions, Programs, Institutions, Disciplines]"

text \<open>
  \<open>deletions_first\<close>: from the first insert on, no statement deletes.
  \<open>in_reverse_dependency_order\<close>: the tables deleted are, in the order of their deletion,
  a selection from the reverse dependency order.
\<close>

definition deletions_first :: "statement list \<Rightarrow> bool" where
  "deletions_first ss = list_all (\<lambda>s. \<not> is_deletion s) (dropWhile (\<lambda>s. \<not> is_insert s) ss)"

definition in_reverse_dependency_order :: "statement list \<Rightarrow> bool" where
  "in_reverse_dependency_order ss =
     (concat (map deleted_table ss)
        = filter (\<lambda>t. t \<in> set (concat (map deleted_table ss))) reverse_dependency_order)"



text \<open>What a stage wrote into a description: every column but the id.\<close>

definition desc_payload :: "description \<Rightarrow> int \<times> string \<times> string" where
  "desc_payload d = (desc_program_id d, desc_section_name d, desc_content d)"

text \<open>
  A staged input with one row of each kind, an empty database whose sequences start at 1,
  and the states after one and after two full loads of that input.
\<close>

definition ex_encode :: "string \<Rightarrow> rat list" where
  "ex_encode txt = [rat_of_nat (length txt), 1 / 2]"

definition ex_staged :: staged where
  "ex_staged =
     \<lparr> staged_disciplines = [\<lparr> disc_id = 3, disc_name = ''Anesthesiology'' \<rparr>],
       staged_institutions = [\<lparr> inst_id = 9, inst_name = ''McGill University'', language = ''en'' \<rparr>],
       staged_programs =
         [\<lparr> prog_id = 27447, prog_discipline_id = 3, prog_institution_id = 9, prog_name = ''McGill / Anes'',
            prog_site = ''Montreal'', prog_stream = ''CMG Stream'', prog_stream_category = ''CMG'',
            prog_quota = Some 12, prog_accreditation = None, prog_source_url = ''https://carms.ca/27447'' \<rparr>],
       staged_sections = [(27447, ''faq'', ''None'')],
       staged_chunks = [(27447, 0, ''Program text'')] \<rparr>"


definition ex_once :: database where
  "ex_once =
     \<lparr> disciplines = staged_disciplines ex_staged,
       institutions = staged_institutions ex_staged,
       programs = staged_programs ex_staged,
       program_descriptions =
         [\<lparr> desc_id = 1, desc_program_id = 27447, desc_section_name = ''faq'', desc_content = ''None'' \<rparr>],
       program_embeddings =
         [\<lparr> emb_id = 1, emb_program_id = 27447, chunk_index = 0,
            emb_chunk_text = ''Program text'', embedding = [12, 1 / 2] \<rparr>],
       descriptions_seq = 2, embeddings_seq = 2 \<rparr>"

definition ex_twice :: database where
  "ex_twice =
     \<lparr> disciplines = staged_disciplines ex_staged,
       institutions = staged_institutions ex_staged,
       programs = staged_programs ex_staged,
       program_descriptions =
         [\<lparr> desc_id = 2, desc_program_id = 27447, desc_section_name = ''faq'', desc_content = ''None'' \<rparr>],
       program_embeddings =
         [\<lparr> emb_id = 1, emb_program_id = 27447, chunk_index = 0,
            emb_chunk_text = ''Program text'', embedding = [12, 1 / 2] \<rparr>],
       descriptions_seq = 3, embeddings_seq = 2 \<rparr>"

section \<open>Serving layer (\<open>api/routes/semantic_search.py\<close>)\<close>

subsection \<open>Semantic search\<close>

text \<open>
  A row of the nearest-neighbour query: the eight selected columns. The query computes
  \<open>similarity_score\<close> as one minus the cosine distance and orders by the distance, so the
  distance of a row is one minus its score (\<open>row_distance\<close>). Scores are exact rationals
  here; binary floating point is not modelled. The embedding of the query text and the
  database are collaborators: \<open>semantic_search\<close> takes the rows the query returned.
\<close>

record search_row =
  row_program_id :: int
  row_chunk_text :: string
  row_similarity_score :: rat
  row_program_name :: string
  row_site :: string
  row_discipline_name :: string
  row_institution_name :: string
  row_stream_category :: string

record SemanticSearchResult =
  program_id :: int
  chunk_text :: string
  similarity_score :: rat
  metadata :: "(string \<times> string) list"

record SemanticSearchResponse =
  query :: string
  results :: "SemanticSearchResult list"
  total :: nat

text \<open>\<open>round(x, 4)\<close>: to four decimals, ties to the even neighbour.\<close>

definition round_half_even :: "rat \<Rightarrow> int" where
  "round_half_even x =
     (let f = \<lfloor>x\<rfloor>; d = x - of_int f
      in if d < 1 / 2 then f else if 1 / 2 < d then f + 1 else if even f then f else f + 1)"

definition py_round4 :: "rat \<Rightarrow> rat" where
  "py_round4 x = of_int (round_half_even (x * 10000)) / 10000"

definition make_result :: "search_row \<Rightarrow> SemanticSearchResult" where
  "make_result row =
     \<lparr> program_id = row_program_id row,
       chunk_text = row_chunk_text row,
       similarity_score = py_round4 (row_similarity_score row),
       metadata =
         [(''program_name'', row_program_name row),
          (''site'', row_site row),
          (''discipline_name'', row_discipline_name row),
          (''institution_name'', row_institution_name row),
          (''stream_category'', row_stream_category row)] \<rparr>"

text \<open>
  The loop over the rows. \<open>seen\<close> is a dictionary in insertion order, here an association
  list that is only ever extended at its end by a key it does not hold.
\<close>

fun dedup_loop ::
  "(int \<times> SemanticSearchResult) list \<Rightarrow> search_row list \<Rightarrow> (int \<times> SemanticSearchResult) list"
where
  "dedup_loop seen [] = seen"
| "dedup_loop seen (row # rows) =
     (let pid = row_program_id row
      in if pid \<notin> set (map fst seen)
         then dedup_loop (seen @ [(pid, make_result row)]) rows
         else dedup_loop seen rows)"

definition semantic_search :: "string \<Rightarrow> search_row list \<Rightarrow> SemanticSearchResponse" where
  "semantic_search q rows =
     (let seen = dedup_loop [] rows;
          unique_results = map snd seen
      in \<lparr> query = q, results = unique_results, total = length unique_results \<rparr>)"

definition row_distance :: "search_row \<Rightarrow> rat" where
  "row_distance row = 1 - row_similarity_score row"

text \<open>A row with program id, distance and chunk text given, the other columns fixed.\<close>

definition hit :: "int \<Rightarrow> rat \<Rightarrow> string \<Rightarrow> search_row" where
  "hit pid d txt =
     \<lparr> row_program_id = pid, row_chunk_text = txt, row_similarity_score = 1 - d,
       row_program_name = ''P'', row_site = ''S'', row_discipline_name = ''D'',
       row_institution_name = ''I'', row_stream_category = ''CMG'' \<rparr>"

subsection \<open>Question answering\<close>

datatype http_error = HTTPException (status_code: nat) (detail: string)

record QAResponse =
  qa_query :: string
  answer :: string
  source_chunks :: "string list"
  num_sources :: nat

text \<open>Whitespace as \<open>str.strip\<close> and the pattern class \<open>\s\<close> see it, in the modelled range.\<close>

definition is_space :: "char \<Rightarrow> bool" where
  "is_space c \<longleftrightarrow>
     (let n = (of_char c :: nat)
      in (9 \<le> n \<and> n \<le> 13) \<or> (28 \<le> n \<and> n \<le> 32) \<or> n = 133 \<or> n = 160)"

definition strip :: "string \<Rightarrow> string" where
  "strip s = rev (dropWhile is_space (rev (dropWhile is_space s)))"

definition nl :: string where
  "nl = [CHR 0x0A]"

text \<open>The dash U+2014 of the literals lies outside the modelled range; its UTF-8 bytes stand for it.\<close>

definition em_dash :: string where
  "em_dash = [CHR 0xE2, CHR 0x80, CHR 0x94]"

fun join :: "string \<Rightarrow> string list \<Rightarrow> string" where
  "join sep [] = []"
| "join sep [x] = x"
| "join sep (x # y # ys) = x @ sep @ join sep (y # ys)"

definition RAG_PROMPT_format :: "string \<Rightarrow> string \<Rightarrow> string" where
  "RAG_PROMPT_format context question =
     ''You are a helpful assistant for the Canadian Resident Matching Service (CaRMS).'' @ nl
     @ ''Use the following context from residency program descriptions to answer the question.'' @ nl
     @ ''If you don'' @ [CHR 0x27] @ ''t know the answer based on the context, say so '' @ em_dash
     @ '' do not make up information.'' @ nl
     @ ''Be specific and reference program names, universities, and locations when relevant.'' @ nl
     @ nl @ ''Context:'' @ nl @ context @ nl @ nl @ ''Question: '' @ question @ nl @ nl
     @ ''Answer:''"

text \<open>
  The retrieved rows are triples (chunk text, program name, institution name). The
  generative collaborator is a function from the prompt to its completion, or to the
  message of the exception it raised. The second component of the result is the list of
  prompts handed to the collaborator, in order: the effect of the call.
\<close>

definition question_answer ::
  "(string \<Rightarrow> string + string) \<Rightarrow> string \<Rightarrow> (string \<times> string \<times> string) list
     \<Rightarrow> (http_error + QAResponse) \<times> string list"
where
  "question_answer llm q rows =
     (if rows = [] then (Inl (HTTPException 404 ''No relevant program data found.''), [])
      else
        let chunks = map (\<lambda>(chunk, pname, iname).
                ''['' @ pname @ '' '' @ em_dash @ '' '' @ iname @ '']: '' @ take 200 chunk @ ''...'') rows;
            context_parts = map (\<lambda>(chunk, pname, iname).
                ''Program: '' @ pname @ '' ('' @ iname @ '')'' @ nl @ chunk) rows;
            context = join (nl @ nl @ ''---'' @ nl @ nl) context_parts;
            prompt = RAG_PROMPT_format context q
        in (case llm prompt of
              Inl error_msg \<Rightarrow>
                if str_in ''Connection'' error_msg \<or> str_in ''refused'' error_msg
                then Inl (HTTPException 503
                  (''Ollama is not running. Start it with: 1) Install: https://ollama.ai  ''
                   @ ''2) Pull model: ollama pull mistral  3) Serve: ollama serve''))
                else Inl (HTTPException 500 (''LLM error: '' @ error_msg))
            | Inr completion \<Rightarrow>
                Inr \<lparr> qa_query = q, answer = strip completion, source_chunks = chunks,
                      num_sources = length chunks \<rparr>,
            [prompt]))"

section \<open>Properties of the stream category\<close>

lemma str_in_iff: "str_in sub s \<longleftrightarrow> (\<exists>pre post. s = pre @ sub @ post)"
proof (induction s)
  case Nil
  show ?case by auto
next
  case (Cons c cs)
  show ?case
  proof
    assume "str_in sub (c # cs)"
    then consider "take (length sub) (c # cs) = sub" | "str_in sub cs" by auto
    then show "\<exists>pre post. c # cs = pre @ sub @ post"
    proof cases
      case 1
      then have "c # cs = [] @ sub @ drop (length sub) (c # cs)"
        by (metis append_Nil append_take_drop_id)
      then show ?thesis by blast
    next
      case 2
      then obtain pre post where "cs = pre @ sub @ post" using Cons.IH by blast
      then have "c # cs = (c # pre) @ sub @ post" by simp
      then show ?thesis by blast
    qed
  next
    assume "\<exists>pre post. c # cs = pre @ sub @ post"
    then obtain pre post where eq: "c # cs = pre @ sub @ post" by blast
    show "str_in sub (c # cs)"
    proof (cases pre)
      case Nil
      then have "take (length sub) (c # cs) = sub" using eq by simp
      then show ?thesis by simp
    next
      case (Cons p ps)
      then have "cs = ps @ sub @ post" using eq by simp
      then show ?thesis using Cons.IH by auto
    qed
  qed
qed

lemma chr_upper_I: "chr_upper c = CHR ''I'' \<longleftrightarrow> c \<in> {CHR ''i'', CHR ''I''}"
  by (cases c) (auto simp: Let_def split: if_splits)

lemma chr_upper_M: "chr_upper c = CHR ''M'' \<longleftrightarrow> c \<in> {CHR ''m'', CHR ''M''}"
  by (cases c) (auto simp: Let_def split: if_splits)

lemma chr_upper_G: "chr_upper c = CHR ''G'' \<longleftrightarrow> c \<in> {CHR ''g'', CHR ''G''}"
  by (cases c) (auto simp: Let_def split: if_splits)

lemma chr_upper_C: "chr_upper c = CHR ''C'' \<longleftrightarrow> c \<in> {CHR ''c'', CHR ''C''}"
  by (cases c) (auto simp: Let_def split: if_splits)

lemma map_eq_three:
  "(\<exists>pre' post'. map f s = pre' @ [x, y, z] @ post') \<longleftrightarrow>
     (\<exists>pre a b c post. s = pre @ [a, b, c] @ post \<and> f a = x \<and> f b = y \<and> f c = z)"
proof
  assume "\<exists>pre' post'. map f s = pre' @ [x, y, z] @ post'"
  then obtain pre' post' where "map f s = pre' @ [x, y, z] @ post'" by blast
  then obtain pre rest where s: "s = pre @ rest" and r: "map f rest = [x, y, z] @ post'"
    by (auto simp: map_eq_append_conv)
  from r obtain a b c post where "rest = [a, b, c] @ post" "f a = x" "f b = y" "f c = z"
    by (auto simp: map_eq_Cons_conv)
  with s show "\<exists>pre a b c post. s = pre @ [a, b, c] @ post \<and> f a = x \<and> f b = y \<and> f c = z"
    by blast
next
  assume "\<exists>pre a b c post. s = pre @ [a, b, c] @ post \<and> f a = x \<and> f b = y \<and> f c = z"
  then obtain pre a b c post where "s = pre @ [a, b, c] @ post" "f a = x" "f b = y" "f c = z"
    by blast
  then have "map f s = map f pre @ [x, y, z] @ map f post" by simp
  then show "\<exists>pre' post'. map f s = pre' @ [x, y, z] @ post'" by blast
qed

lemma str_in_upper_three:
  assumes "\<And>c. chr_upper c = x \<longleftrightarrow> c \<in> A" "\<And>c. chr_upper c = y \<longleftrightarrow> c \<in> B"
    "\<And>c. chr_upper c = z \<longleftrightarrow> c \<in> C"
  shows "str_in [x, y, z] (upper s) \<longleftrightarrow> contains_any_case A B C s"
proof -
  have "str_in [x, y, z] (upper s) \<longleftrightarrow> (\<exists>pre' post'. map chr_upper s = pre' @ [x, y, z] @ post')"
    by (simp only: str_in_iff upper_def)
  also have "\<dots> \<longleftrightarrow> (\<exists>pre a b c post. s = pre @ [a, b, c] @ post \<and> chr_upper a = x
      \<and> chr_upper b = y \<and> chr_upper c = z)"
    by (rule map_eq_three)
  also have "\<dots> \<longleftrightarrow> contains_any_case A B C s"
    by (simp only: assms contains_any_case_def)
  finally show ?thesis .
qed

text \<open>
  Claim C3. For every stream label, the derived stream category is "IMG" if the label
  contains "IMG" in any case, otherwise "CMG" if it contains "CMG" in any case, otherwise
  "All"; so the result is always one of these three values.
\<close>

theorem derive_stream_category_spec:
  "derive_stream_category stream =
     (if contains_IMG stream then ''IMG'' else if contains_CMG stream then ''CMG'' else ''All'')
   \<and> derive_stream_category stream \<in> {''IMG'', ''CMG'', ''All''}"
proof -
  have i: "str_in ''IMG'' (upper stream) \<longleftrightarrow> contains_IMG stream"
    unfolding contains_IMG_def
    by (rule str_in_upper_three) (rule chr_upper_I chr_upper_M chr_upper_G)+
  have c: "str_in ''CMG'' (upper stream) \<longleftrightarrow> contains_CMG stream"
    unfolding contains_CMG_def
    by (rule str_in_upper_three) (rule chr_upper_C chr_upper_M chr_upper_G)+
  show ?thesis
    by (simp only: derive_stream_category_def Let_def i c) simp
qed

theorem derive_stream_category_witness:
  "contains_IMG ''cmg and img Stream'' \<and> derive_stream_category ''cmg and img Stream'' = ''IMG''
   \<and> \<not> contains_IMG ''Cmg only'' \<and> contains_CMG ''Cmg only''
   \<and> derive_stream_category ''Cmg only'' = ''CMG''
   \<and> derive_stream_category ''Regular Stream'' = ''All''"
proof -
  have a: "derive_stream_category ''cmg and img Stream'' = ''IMG''"
    by (simp add: derive_stream_category_def upper_def)
  have b: "derive_stream_category ''Cmg only'' = ''CMG''"
    by (simp add: derive_stream_category_def upper_def)
  have c: "derive_stream_category ''Regular Stream'' = ''All''"
    by (simp add: derive_stream_category_def upper_def)
  from a derive_stream_category_spec [of "''cmg and img Stream''"]
  have d: "contains_IMG ''cmg and img Stream''"
    by (simp split: if_splits)
  from b derive_stream_category_spec [of "''Cmg only''"]
  have e: "\<not> contains_IMG ''Cmg only'' \<and> contains_CMG ''Cmg only''"
    by (simp split: if_splits)
  from a b c d e show ?thesis by blast
qed

section \<open>Properties of sections and institutions\<close>

lemma stg_sections_ok:
  assumes "''program_description_id'' \<in> set (columns raw)"
    and "set SECTION_COLUMNS \<subseteq> set (columns raw)"
    and "''content'' \<notin> set (columns raw)"
  shows "stg_sections raw =
      Inr (filter (\<lambda>(pid, section_name, content). content \<noteq> NaN)
        (concat (map (\<lambda>v. map (\<lambda>r. (r ''program_description_id'', v, r v)) (data raw))
           SECTION_COLUMNS)))"
proof -
  have "filter (\<lambda>c. c \<notin> set (columns raw)) (''program_description_id'' # SECTION_COLUMNS) = []"
    using assms by (auto simp: filter_empty_conv)
  then show ?thesis
    using assms(3) by (simp add: stg_sections_def melt_def Let_def)
qed

lemma length_concat_filter_rows:
  "length (filter P (concat (map (\<lambda>v. map (f v) rs) vs)))
     = (\<Sum>r\<leftarrow>rs. length (filter (\<lambda>v. P (f v r)) vs))"
proof (induction vs)
  case Nil
  show ?case by (induction rs) simp_all
next
  case (Cons v vs)
  have "(\<Sum>r\<leftarrow>rs. length (filter (\<lambda>v. P (f v r)) (v # vs)))
      = (\<Sum>r\<leftarrow>rs. (if P (f v r) then 1 else 0) + length (filter (\<lambda>v. P (f v r)) vs))"
    by (rule arg_cong [where f = sum_list]) auto
  also have "\<dots> = (\<Sum>r\<leftarrow>rs. if P (f v r) then 1 else 0)
      + (\<Sum>r\<leftarrow>rs. length (filter (\<lambda>v. P (f v r)) vs))"
    by (simp add: sum_list_addf)
  also have "(\<Sum>r\<leftarrow>rs. if P (f v r) then 1 else 0) = length (filter P (map (f v) rs))"
    by (induction rs) simp_all
  finally show ?case using Cons.IH by simp
qed

text \<open>
  Claim C2, as amended. For every wide table (a frame that has the id column and the
  section columns, and no column named content), the section stage emits the row
  (program_id, section_name, content) exactly when some row of the table has that id and
  that content in that section column, the column is one of the enumerated section
  columns and the cell is not missing (\<open>NaN\<close>); the number of rows emitted is the number of
  section cells that are not missing. A cell that holds the empty text is not missing.
\<close>

theorem stg_sections_rows:
  assumes "''program_description_id'' \<in> set (columns raw)"
    and "set SECTION_COLUMNS \<subseteq> set (columns raw)"
    and "''content'' \<notin> set (columns raw)"
  shows "\<exists>out. stg_sections raw = Inr out
     \<and> (\<forall>pid s c. (pid, s, c) \<in> set out \<longleftrightarrow>
           s \<in> set SECTION_COLUMNS \<and> c \<noteq> NaN
           \<and> (\<exists>r \<in> set (data raw). r ''program_description_id'' = pid \<and> r s = c))
     \<and> length out = (\<Sum>r\<leftarrow>data raw. length (filter (\<lambda>s. r s \<noteq> NaN) SECTION_COLUMNS))"
proof -
  let ?out = "filter (\<lambda>(pid, section_name, content). content \<noteq> NaN)
        (concat (map (\<lambda>v. map (\<lambda>r. (r ''program_description_id'', v, r v)) (data raw))
           SECTION_COLUMNS))"
  have 1: "stg_sections raw = Inr ?out" using assms by (rule stg_sections_ok)
  have 2: "(pid, s, c) \<in> set ?out \<longleftrightarrow>
           s \<in> set SECTION_COLUMNS \<and> c \<noteq> NaN
           \<and> (\<exists>r \<in> set (data raw). r ''program_description_id'' = pid \<and> r s = c)" for pid s c
    by auto
  have 3: "length ?out = (\<Sum>r\<leftarrow>data raw. length (filter (\<lambda>s. r s \<noteq> NaN) SECTION_COLUMNS))"
    using length_concat_filter_rows
      [of "\<lambda>(pid, section_name, content). content \<noteq> NaN"
          "\<lambda>v r. (r ''program_description_id'', v, r v)" "data raw" SECTION_COLUMNS]
    by simp
  from 1 2 3 show ?thesis by blast
qed

theorem stg_sections_rows_witness:
  "''program_description_id'' \<in> set (''program_description_id'' # SECTION_COLUMNS)
   \<and> ''content'' \<notin> set (''program_description_id'' # SECTION_COLUMNS)
   \<and> stg_sections
       \<lparr> columns = ''program_description_id'' # SECTION_COLUMNS,
         data =
           [frame_row [(''program_description_id'', Num 1), (''program_name'', Str ''Anesthesiology''),
                       (''faq'', Str ''None'')],
            frame_row [(''program_description_id'', Num 2), (''interviews'', Str ''In person'')]] \<rparr>
       = Inr [(Num 1, ''program_name'', Str ''Anesthesiology''),
              (Num 2, ''interviews'', Str ''In person''),
              (Num 1, ''faq'', Str ''None'')]
   \<and> (\<Sum>r\<leftarrow>[frame_row [(''program_description_id'', Num 1), (''program_name'', Str ''Anesthesiology''),
                       (''faq'', Str ''None'')],
            frame_row [(''program_description_id'', Num 2), (''interviews'', Str ''In person'')]].
          length (filter (\<lambda>s. r s \<noteq> NaN) SECTION_COLUMNS)) = 3"
proof -
  let ?raw = "\<lparr> columns = ''program_description_id'' # SECTION_COLUMNS,
         data =
           [frame_row [(''program_description_id'', Num 1), (''program_name'', Str ''Anesthesiology''),
                       (''faq'', Str ''None'')],
            frame_row [(''program_description_id'', Num 2), (''interviews'', Str ''In person'')]] \<rparr>"
  have h1: "''program_description_id'' \<in> set (columns ?raw)" by simp
  have h2: "set SECTION_COLUMNS \<subseteq> set (columns ?raw)" by auto
  have h3: "''content'' \<notin> set (columns ?raw)" by (simp add: SECTION_COLUMNS_def)
  have e: "stg_sections ?raw
       = Inr [(Num 1, ''program_name'', Str ''Anesthesiology''),
              (Num 2, ''interviews'', Str ''In person''),
              (Num 1, ''faq'', Str ''None'')]"
    by (simp add: stg_sections_def melt_def SECTION_COLUMNS_def frame_row_def)
  from stg_sections_rows [OF h1 h2 h3] e h3 show ?thesis by simp
qed

text \<open>
  The claim as stated fails where a section cell holds the empty text: the cell is empty,
  and the stage emits a row for it.
\<close>

theorem stg_sections_empty_text:
  "stg_sections
     \<lparr> columns = ''program_description_id'' # SECTION_COLUMNS,
       data = [frame_row [(''program_description_id'', Num 1), (''faq'', Str [])]] \<rparr>
     = Inr [(Num 1, ''faq'', Str [])]"
  by (simp add: stg_sections_def melt_def SECTION_COLUMNS_def frame_row_def)

lemma groupby_min_names:
  "distinct (map fst (groupby_min df)) \<and> set (map fst (groupby_min df)) = school_name ` set df"
  by (simp add: groupby_min_def comp_def)

lemma groupby_min_least:
  assumes "(n, i) \<in> set (groupby_min df)"
  shows "i = Min (school_id ` {r \<in> set df. school_name r = n})"
proof -
  from assms have n: "n \<in> school_name ` set df"
    and i: "i = min_list (map school_id (filter (\<lambda>r. school_name r = n) df))"
    by (auto simp: groupby_min_def)
  from n have "map school_id (filter (\<lambda>r. school_name r = n) df) \<noteq> []"
    by (auto simp: filter_empty_conv)
  then have "i = Min (set (map school_id (filter (\<lambda>r. school_name r = n) df)))"
    using i by (simp add: min_list_Min)
  also have "set (map school_id (filter (\<lambda>r. school_name r = n) df))
      = school_id ` {r \<in> set df. school_name r = n}"
    by auto
  finally show ?thesis .
qed

lemma groupby_min_length: "length (groupby_min df) = card (school_name ` set df)"
  by (simp add: groupby_min_def length_remdups_card_conv)

lemma groupby_min_ids:
  "distinct (map snd (groupby_min df)) \<longleftrightarrow>
     inj_on (\<lambda>n. Min (school_id ` {r \<in> set df. school_name r = n})) (school_name ` set df)"
proof -
  let ?least = "\<lambda>n. Min (school_id ` {r \<in> set df. school_name r = n})"
  have "snd x = ?least (fst x)" if "x \<in> set (groupby_min df)" for x
    using groupby_min_least [of "fst x" "snd x" df] that by simp
  then have "map snd (groupby_min df) = map (\<lambda>x. ?least (fst x)) (groupby_min df)"
    by (intro map_cong refl)
  also have "\<dots> = map ?least (map fst (groupby_min df))"
    by (simp add: comp_def)
  finally have eq: "map snd (groupby_min df) = map ?least (map fst (groupby_min df))" .
  have "distinct (map snd (groupby_min df))
      \<longleftrightarrow> distinct (map ?least (map fst (groupby_min df)))"
    by (simp only: eq)
  also have "\<dots> \<longleftrightarrow> inj_on ?least (set (map fst (groupby_min df)))"
    using groupby_min_names [of df] by (simp only: distinct_map) simp
  finally show ?thesis using groupby_min_names [of df] by simp
qed

text \<open>
  Claim C6, as amended. The stage accepts a program-master input exactly when it has 18
  distinct school names and the least school ids of distinct names differ; any other input
  aborts with a validation failure. For every accepted input the stage produces one
  institution per distinct school name; its id is the least school id among the rows of
  that name, and its language is "fr" if the name is in the fixed French set and "en"
  otherwise.
\<close>

theorem stg_institutions_valid:
  "((\<exists>insts. stg_institutions raw = Inr insts) \<longleftrightarrow>
      card (school_name ` set raw) = 18
      \<and> inj_on (\<lambda>n. Min (school_id ` {r \<in> set raw. school_name r = n})) (school_name ` set raw))
   \<and> (\<forall>insts. stg_institutions raw = Inr insts \<longrightarrow>
        distinct (map inst_name insts)
        \<and> set (map inst_name insts) = school_name ` set raw
        \<and> length insts = 18
        \<and> distinct (map inst_id insts)
        \<and> (\<forall>i \<in> set insts.
              inst_id i = Min (school_id ` {r \<in> set raw. school_name r = inst_name i})
              \<and> (language i = ''fr'' \<longleftrightarrow> inst_name i \<in> FRENCH_SCHOOLS)
              \<and> (language i = ''en'' \<longleftrightarrow> inst_name i \<notin> FRENCH_SCHOOLS)))"
proof -
  let ?mk = "\<lambda>(n, i). \<lparr> inst_id = i, inst_name = n,
                             language = (if n \<in> FRENCH_SCHOOLS then ''fr'' else ''en'') \<rparr>"
  let ?all = "map ?mk (groupby_min raw)"
  have names: "map inst_name ?all = map fst (groupby_min raw)"
    by (simp add: comp_def case_prod_beta)
  have ids: "map inst_id ?all = map snd (groupby_min raw)"
    by (simp add: comp_def case_prod_beta)
  have len: "length ?all = card (school_name ` set raw)"
    by (simp add: groupby_min_length)
  have split: "stg_institutions raw =
      (if length ?all \<noteq> 18 then Inl (Expected_18_institutions (length ?all))
       else if \<not> distinct (map inst_id ?all) then Inl Duplicate_institution_IDs
       else Inr ?all)"
    by (simp add: stg_institutions_def Let_def)
  have 1: "(\<exists>insts. stg_institutions raw = Inr insts) \<longleftrightarrow>
      card (school_name ` set raw) = 18
      \<and> inj_on (\<lambda>n. Min (school_id ` {r \<in> set raw. school_name r = n})) (school_name ` set raw)"
    unfolding split ids len groupby_min_ids by auto
  have 2: "distinct (map inst_name insts)
        \<and> set (map inst_name insts) = school_name ` set raw
        \<and> length insts = 18
        \<and> distinct (map inst_id insts)
        \<and> (\<forall>i \<in> set insts.
              inst_id i = Min (school_id ` {r \<in> set raw. school_name r = inst_name i})
              \<and> (language i = ''fr'' \<longleftrightarrow> inst_name i \<in> FRENCH_SCHOOLS)
              \<and> (language i = ''en'' \<longleftrightarrow> inst_name i \<notin> FRENCH_SCHOOLS))"
    if a: "stg_institutions raw = Inr insts" for insts
  proof -
    from a have insts: "insts = ?all"
      and l: "length insts = 18" and d: "distinct (map inst_id insts)"
      unfolding split by (auto split: if_splits)
    have each: "inst_id i = Min (school_id ` {r \<in> set raw. school_name r = inst_name i})
           \<and> (language i = ''fr'' \<longleftrightarrow> inst_name i \<in> FRENCH_SCHOOLS)
           \<and> (language i = ''en'' \<longleftrightarrow> inst_name i \<notin> FRENCH_SCHOOLS)"
      if "i \<in> set insts" for i
    proof -
      from that obtain n k where nk: "(n, k) \<in> set (groupby_min raw)" and i: "i = ?mk (n, k)"
        unfolding insts by auto
      from groupby_min_least [OF nk] i show ?thesis by simp
    qed
    have "map inst_name insts = map fst (groupby_min raw)"
      unfolding insts by (rule names)
    with groupby_min_names [of raw] l d each show ?thesis by simp
  qed
  from 1 2 show ?thesis by blast
qed

theorem stg_institutions_one_school:
  "stg_institutions [\<lparr> school_id = 7, school_name = ''McGill University'' \<rparr>]
     = Inl (Expected_18_institutions 1)"
  by (simp add: stg_institutions_def groupby_min_def)

theorem stg_institutions_valid_witness:
  "stg_institutions ex18 = Inr ex18_institutions
   \<and> card (school_name ` set ex18) = 18
   \<and> length ex18_institutions = 18
   \<and> \<lparr> inst_id = 1, inst_name = ''S01'', language = ''en'' \<rparr> \<in> set ex18_institutions
   \<and> Min (school_id ` {r \<in> set ex18. school_name r = ''S01''}) = 1
   \<and> Min (school_id ` {r \<in> set ex18. school_name r = ''Universit'' @ [CHR 0xE9] @ '' Laval''}) = 20"
proof -
  have e: "stg_institutions ex18 = Inr ex18_institutions"
    by code_simp
  note t = stg_institutions_valid [of ex18]
  from t e have k: "card (school_name ` set ex18) = 18" by blast
  from t e have p: "length ex18_institutions = 18
      \<and> (\<forall>i \<in> set ex18_institutions.
            inst_id i = Min (school_id ` {r \<in> set ex18. school_name r = inst_name i}))"
    by blast
  have a: "\<lparr> inst_id = 1, inst_name = ''S01'', language = ''en'' \<rparr> \<in> set ex18_institutions"
    by code_simp
  have b: "\<lparr> inst_id = 20, inst_name = ''Universit'' @ [CHR 0xE9] @ '' Laval'', language = ''fr'' \<rparr>
      \<in> set ex18_institutions"
    by code_simp
  from p a have c: "Min (school_id ` {r \<in> set ex18. school_name r = ''S01''}) = 1"
    by fastforce
  from p b have d: "Min (school_id ` {r \<in> set ex18.
      school_name r = ''Universit'' @ [CHR 0xE9] @ '' Laval''}) = 20"
    by fastforce
  from e k p a c d show ?thesis by blast
qed

section \<open>Properties of the load stage\<close>


lemma batches_Nil [simp]: "batches n [] = []"
  by (simp add: batches.simps)




lemma number_descriptions_Nil [simp]: "number_descriptions seq [] = []"
  by (simp add: number_descriptions_def)

lemma number_embeddings_Nil [simp]: "number_embeddings seq [] = []"
  by (simp add: number_embeddings_def)

lemma desc_payload_number [simp]:
  "map desc_payload (number_descriptions seq recs) = recs"
proof -
  have "desc_payload \<circ> (\<lambda>(k, r). \<lparr> desc_id = k, desc_program_id = fst r,
      desc_section_name = fst (snd r), desc_content = snd (snd r) \<rparr>) = snd"
    by (auto simp: fun_eq_iff desc_payload_def)
  then show ?thesis by (simp add: number_descriptions_def)
qed

lemma desc_id_number [simp]:
  "map desc_id (number_descriptions seq recs) = [seq ..< seq + length recs]"
proof -
  have "desc_id \<circ> (\<lambda>(k, r). \<lparr> desc_id = k, desc_program_id = fst r,
      desc_section_name = fst (snd r), desc_content = snd (snd r) \<rparr>) = fst"
    by (auto simp: fun_eq_iff)
  then show ?thesis by (simp add: number_descriptions_def)
qed
















lemma insert_descriptions_statements:
  "list_all (\<lambda>s. \<not> is_deletion s)
      (concat (map (\<lambda>batch. [Insert_Descriptions batch, Commit]) bs))
   \<and> concat (map deleted_table (concat (map (\<lambda>batch. [Insert_Descriptions batch, Commit]) bs))) = []
   \<and> takeWhile (\<lambda>s. \<not> is_insert s)
        (concat (map (\<lambda>batch. [Insert_Descriptions batch, Commit]) bs)) = []"
  by (induction bs) (auto split: list.splits)

lemma insert_embeddings_statements:
  "list_all (\<lambda>s. \<not> is_deletion s)
      (concat (map (\<lambda>batch. [Insert_Embeddings batch, Commit]) bs) @ [Create_Index, Commit])
   \<and> concat (map deleted_table
        (concat (map (\<lambda>batch. [Insert_Embeddings batch, Commit]) bs) @ [Create_Index, Commit])) = []
   \<and> takeWhile (\<lambda>s. \<not> is_insert s)
        (concat (map (\<lambda>batch. [Insert_Embeddings batch, Commit]) bs) @ [Create_Index, Commit])
       = (if bs = [] then [Create_Index, Commit] else [])"
  by (induction bs) (auto split: list.splits)

lemma list_all_dropWhile: "list_all P xs \<Longrightarrow> list_all P (dropWhile Q xs)"
  by (induction xs) auto

lemma stage_db_disciplines:
  "deletions_first (db_disciplines d) \<and> in_reverse_dependency_order (db_disciplines d)
   \<and> (\<exists>db'. run (takeWhile (\<lambda>s. \<not> is_insert s) (db_disciplines d)) db = Inr db')"
  by (simp add: db_disciplines_def deletions_first_def in_reverse_dependency_order_def
      reverse_dependency_order_def)

lemma stage_db_institutions:
  "deletions_first (db_institutions i) \<and> in_reverse_dependency_order (db_institutions i)
   \<and> (\<exists>db'. run (takeWhile (\<lambda>s. \<not> is_insert s) (db_institutions i)) db = Inr db')"
  by (simp add: db_institutions_def deletions_first_def in_reverse_dependency_order_def
      reverse_dependency_order_def)

lemma stage_db_programs:
  "deletions_first (db_programs p) \<and> in_reverse_dependency_order (db_programs p)
   \<and> (\<exists>db'. run (takeWhile (\<lambda>s. \<not> is_insert s) (db_programs p)) db = Inr db')"
  by (simp add: db_programs_def deletions_first_def in_reverse_dependency_order_def
      reverse_dependency_order_def)

lemma stage_db_descriptions:
  "deletions_first (db_descriptions s) \<and> in_reverse_dependency_order (db_descriptions s)
   \<and> (\<exists>db'. run (takeWhile (\<lambda>s. \<not> is_insert s) (db_descriptions s)) db = Inr db')"
  using insert_descriptions_statements [of "batches 1000 s"]
  by (simp add: db_descriptions_def deletions_first_def in_reverse_dependency_order_def
      reverse_dependency_order_def list_all_dropWhile)

lemma stage_db_embeddings:
  "deletions_first (db_embeddings encode c) \<and> in_reverse_dependency_order (db_embeddings encode c)
   \<and> (\<exists>db'. run (takeWhile (\<lambda>s. \<not> is_insert s) (db_embeddings encode c)) db = Inr db')"
  using insert_embeddings_statements [of "batches 500 (map (embed encode) c)"]
  by (simp add: db_embeddings_def deletions_first_def in_reverse_dependency_order_def
      reverse_dependency_order_def list_all_dropWhile)

text \<open>
  Claim C8. In every invocation of a load stage (and of the embedding stage), from any
  state of the database, every deletion comes before the first insert, the tables are
  deleted in the reverse dependency order (embeddings, descriptions, programs,
  institutions, disciplines, each stage taking the tables it deletes in that order), and
  the statements up to the first insert, which hold every deletion, run without a foreign
  key violation. As this holds from any state, it holds whichever stages ran before.
\<close>

theorem load_stage_deletions:
  assumes "ss \<in> {db_disciplines d, db_institutions i, db_programs p, db_descriptions s,
      db_embeddings encode c}"
  shows "deletions_first ss \<and> in_reverse_dependency_order ss
     \<and> (\<exists>db'. run (takeWhile (\<lambda>s. \<not> is_insert s) ss) db = Inr db')"
  using assms stage_db_disciplines [of d db] stage_db_institutions [of i db]
    stage_db_programs [of p db] stage_db_descriptions [of s db]
    stage_db_embeddings [of encode c db]
  by blast

theorem load_stage_deletions_witness:
  "exec (Delete Programs) ex_once = Inl (ForeignKeyViolation Programs)
   \<and> exec (Delete Disciplines) ex_once = Inl (ForeignKeyViolation Disciplines)
   \<and> deletions_first (db_programs (staged_programs ex_staged))
   \<and> in_reverse_dependency_order (db_programs (staged_programs ex_staged))
   \<and> concat (map deleted_table (db_programs (staged_programs ex_staged)))
       = [Embeddings, Descriptions, Programs]
   \<and> run (takeWhile (\<lambda>s. \<not> is_insert s) (db_programs (staged_programs ex_staged))) ex_once
       = Inr (ex_once\<lparr>program_embeddings := [], program_descriptions := [], programs := []\<rparr>)
   \<and> run (db_descriptions (staged_sections ex_staged)) ex_once = Inr ex_twice"
proof -
  have a: "exec (Delete Programs) ex_once = Inl (ForeignKeyViolation Programs)"
    by (simp add: ex_once_def ex_staged_def)
  have b: "exec (Delete Disciplines) ex_once = Inl (ForeignKeyViolation Disciplines)"
    by (simp add: ex_once_def ex_staged_def)
  have c: "concat (map deleted_table (db_programs (staged_programs ex_staged)))
       = [Embeddings, Descriptions, Programs]"
    by (simp add: db_programs_def)
  have d: "run (takeWhile (\<lambda>s. \<not> is_insert s) (db_programs (staged_programs ex_staged))) ex_once
       = Inr (ex_once\<lparr>program_embeddings := [], program_descriptions := [], programs := []\<rparr>)"
    by (simp add: db_programs_def ex_once_def)
  have e: "run (db_descriptions (staged_sections ex_staged)) ex_once = Inr ex_twice"
    by (simp add: db_descriptions_def ex_once_def ex_twice_def ex_staged_def batches.simps
        number_descriptions_def)
  have "db_programs (staged_programs ex_staged)
      \<in> {db_disciplines [], db_institutions [], db_programs (staged_programs ex_staged),
          db_descriptions [], db_embeddings ex_encode []}"
    by simp
  from load_stage_deletions [OF this, of ex_once] a b c d e show ?thesis by blast
qed




section \<open>Properties of the serving layer\<close>

lemma dedup_loop_inv:
  assumes "distinct (map fst seen)" "\<forall>p r. (p, r) \<in> set seen \<longrightarrow> program_id r = p"
  shows "distinct (map fst (dedup_loop seen rows))
     \<and> set (map fst (dedup_loop seen rows)) = set (map fst seen) \<union> set (map row_program_id rows)
     \<and> (\<forall>p r. (p, r) \<in> set (dedup_loop seen rows) \<longrightarrow> program_id r = p \<and>
          ((p, r) \<in> set seen \<or>
           (p \<notin> set (map fst seen) \<and>
            (\<exists>h. find (\<lambda>h. row_program_id h = p) rows = Some h \<and> r = make_result h))))"
  using assms
proof (induction rows arbitrary: seen)
  case Nil
  then show ?case by auto
next
  case (Cons row rows)
  let ?pid = "row_program_id row"
  show ?case
  proof (cases "?pid \<in> set (map fst seen)")
    case True
    then have eq: "dedup_loop seen (row # rows) = dedup_loop seen rows" by simp
    have ih: "distinct (map fst (dedup_loop seen rows))
     \<and> set (map fst (dedup_loop seen rows)) = set (map fst seen) \<union> set (map row_program_id rows)
     \<and> (\<forall>p r. (p, r) \<in> set (dedup_loop seen rows) \<longrightarrow> program_id r = p \<and>
          ((p, r) \<in> set seen \<or>
           (p \<notin> set (map fst seen) \<and>
            (\<exists>h. find (\<lambda>h. row_program_id h = p) rows = Some h \<and> r = make_result h))))"
      using Cons.IH [OF Cons.prems] .
    have 1: "distinct (map fst (dedup_loop seen rows))" using ih by blast
    have 2: "set (map fst (dedup_loop seen rows))
        = set (map fst seen) \<union> set (map row_program_id (row # rows))"
      using ih True by auto
    have 3: "program_id r = p \<and>
          ((p, r) \<in> set seen \<or>
           (p \<notin> set (map fst seen) \<and>
            (\<exists>h. find (\<lambda>h. row_program_id h = p) (row # rows) = Some h \<and> r = make_result h)))"
      if "(p, r) \<in> set (dedup_loop seen rows)" for p r
    proof -
      from ih that have a: "program_id r = p" and
        b: "(p, r) \<in> set seen \<or> (p \<notin> set (map fst seen) \<and>
            (\<exists>h. find (\<lambda>h. row_program_id h = p) rows = Some h \<and> r = make_result h))"
        by blast+
      from b show ?thesis
      proof
        assume "(p, r) \<in> set seen"
        with a show ?thesis by blast
      next
        assume c: "p \<notin> set (map fst seen) \<and>
            (\<exists>h. find (\<lambda>h. row_program_id h = p) rows = Some h \<and> r = make_result h)"
        then have "?pid \<noteq> p" using True by auto
        then have "find (\<lambda>h. row_program_id h = p) (row # rows)
            = find (\<lambda>h. row_program_id h = p) rows" by simp
        with a c show ?thesis by simp
      qed
    qed
    show ?thesis unfolding eq using 1 2 3 by blast
  next
    case False
    let ?seen' = "seen @ [(?pid, make_result row)]"
    from False have eq: "dedup_loop seen (row # rows) = dedup_loop ?seen' rows" by simp
    have d: "distinct (map fst ?seen')" using False Cons.prems(1) by simp
    have k: "\<forall>p r. (p, r) \<in> set ?seen' \<longrightarrow> program_id r = p"
      using Cons.prems(2) by (auto simp: make_result_def)
    have ih: "distinct (map fst (dedup_loop ?seen' rows))
     \<and> set (map fst (dedup_loop ?seen' rows)) = set (map fst ?seen') \<union> set (map row_program_id rows)
     \<and> (\<forall>p r. (p, r) \<in> set (dedup_loop ?seen' rows) \<longrightarrow> program_id r = p \<and>
          ((p, r) \<in> set ?seen' \<or>
           (p \<notin> set (map fst ?seen') \<and>
            (\<exists>h. find (\<lambda>h. row_program_id h = p) rows = Some h \<and> r = make_result h))))"
      using Cons.IH [OF d k] .
    have 1: "distinct (map fst (dedup_loop ?seen' rows))" using ih by blast
    have 2: "set (map fst (dedup_loop ?seen' rows))
        = set (map fst seen) \<union> set (map row_program_id (row # rows))"
      using ih by auto
    have 3: "program_id r = p \<and>
          ((p, r) \<in> set seen \<or>
           (p \<notin> set (map fst seen) \<and>
            (\<exists>h. find (\<lambda>h. row_program_id h = p) (row # rows) = Some h \<and> r = make_result h)))"
      if "(p, r) \<in> set (dedup_loop ?seen' rows)" for p r
    proof -
      from ih that have a: "program_id r = p" and
        b: "(p, r) \<in> set ?seen' \<or> (p \<notin> set (map fst ?seen') \<and>
            (\<exists>h. find (\<lambda>h. row_program_id h = p) rows = Some h \<and> r = make_result h))"
        by blast+
      from b show ?thesis
      proof
        assume "(p, r) \<in> set ?seen'"
        then consider "(p, r) \<in> set seen" | "p = ?pid" "r = make_result row" by auto
        then show ?thesis
        proof cases
          case 1
          with a show ?thesis by blast
        next
          case 2
          with a False show ?thesis by simp
        qed
      next
        assume c: "p \<notin> set (map fst ?seen') \<and>
            (\<exists>h. find (\<lambda>h. row_program_id h = p) rows = Some h \<and> r = make_result h)"
        then have "?pid \<noteq> p" by auto
        then have "find (\<lambda>h. row_program_id h = p) (row # rows)
            = find (\<lambda>h. row_program_id h = p) rows" by simp
        with a c show ?thesis by simp
      qed
    qed
    show ?thesis unfolding eq using 1 2 3 by blast
  qed
qed

lemma find_sorted_least:
  "sorted (map f xs) \<Longrightarrow> find P xs = Some h \<Longrightarrow> x \<in> set xs \<Longrightarrow> P x \<Longrightarrow> f h \<le> f x"
  by (induction xs) (auto split: if_splits)

lemma ex_eval:
  "results (semantic_search q [hit 5 (1/10) ''a'', hit 5 (3/10) ''b'', hit 7 (2/10) ''c''])
     = [make_result (hit 5 (1/10) ''a''), make_result (hit 7 (2/10) ''c'')]"
  by (simp add: semantic_search_def hit_def)

lemma ex_eval2:
  "map (\<lambda>r. (program_id r, similarity_score r)) [make_result (hit 5 (1/10) ''a''), make_result (hit 7 (2/10) ''c'')]
     = [(5, 9/10), (7, 8/10)]"
  by (simp add: make_result_def hit_def py_round4_def round_half_even_def)


text \<open>
  Claim C1. For every list of raw hits, \<open>semantic_search\<close> returns exactly one result per
  distinct program id, and that result is made from the first hit of the program in the
  list; later hits of a program already represented are dropped. When the hits are
  ordered by ascending distance, the kept hit has the lowest distance of its program.
  For the hits (program 5, distance 0.1), (program 5, distance 0.3), (program 7, distance
  0.2) the results are the first and the third.
\<close>

theorem semantic_search_dedup:
  "distinct (map program_id (results (semantic_search q rows)))
   \<and> set (map program_id (results (semantic_search q rows))) = set (map row_program_id rows)
   \<and> (\<forall>r \<in> set (results (semantic_search q rows)).
         \<exists>h. find (\<lambda>h. row_program_id h = program_id r) rows = Some h \<and> r = make_result h
           \<and> (sorted (map row_distance rows) \<longrightarrow>
                (\<forall>h' \<in> set rows. row_program_id h' = program_id r
                    \<longrightarrow> row_distance h \<le> row_distance h')))
   \<and> total (semantic_search q rows) = card (set (map row_program_id rows))
   \<and> results (semantic_search q
         [hit 5 (1 / 10) ''a'', hit 5 (3 / 10) ''b'', hit 7 (2 / 10) ''c''])
       = [make_result (hit 5 (1 / 10) ''a''), make_result (hit 7 (2 / 10) ''c'')]"
proof -
  let ?seen = "dedup_loop [] rows"
  have inv: "distinct (map fst ?seen)
     \<and> set (map fst ?seen) = set (map fst ([] :: (int \<times> SemanticSearchResult) list))
          \<union> set (map row_program_id rows)
     \<and> (\<forall>p r. (p, r) \<in> set ?seen \<longrightarrow> program_id r = p \<and>
          ((p, r) \<in> set [] \<or>
           (p \<notin> set (map fst ([] :: (int \<times> SemanticSearchResult) list)) \<and>
            (\<exists>h. find (\<lambda>h. row_program_id h = p) rows = Some h \<and> r = make_result h))))"
    by (rule dedup_loop_inv) simp_all
  have res: "results (semantic_search q rows) = map snd ?seen"
    by (simp add: semantic_search_def Let_def)
  have key: "program_id (snd x) = fst x" if "x \<in> set ?seen" for x
    using inv that by (cases x) auto
  have keys: "map program_id (map snd ?seen) = map fst ?seen"
    using key by simp
  have 1: "distinct (map program_id (results (semantic_search q rows)))"
    unfolding res keys using inv by blast
  have 2: "set (map program_id (results (semantic_search q rows))) = set (map row_program_id rows)"
    unfolding res keys using inv by simp
  have 3: "\<exists>h. find (\<lambda>h. row_program_id h = program_id r) rows = Some h \<and> r = make_result h
           \<and> (sorted (map row_distance rows) \<longrightarrow>
                (\<forall>h' \<in> set rows. row_program_id h' = program_id r
                    \<longrightarrow> row_distance h \<le> row_distance h'))"
    if "r \<in> set (results (semantic_search q rows))" for r
  proof -
    from that obtain p where pr: "(p, r) \<in> set ?seen" unfolding res by auto
    have "\<forall>p r. (p, r) \<in> set ?seen \<longrightarrow> program_id r = p \<and>
        (\<exists>h. find (\<lambda>h. row_program_id h = p) rows = Some h \<and> r = make_result h)"
      using inv by simp
    with pr obtain h where h: "program_id r = p"
      "find (\<lambda>h. row_program_id h = p) rows = Some h" "r = make_result h"
      by blast
    have "row_distance h \<le> row_distance h'"
      if "sorted (map row_distance rows)" "h' \<in> set rows" "row_program_id h' = program_id r"
      for h'
      using find_sorted_least [OF that(1) h(2) that(2)] that(3) h(1) by simp
    with h show ?thesis by blast
  qed
  have "total (semantic_search q rows) = length (map fst ?seen)"
    by (simp add: semantic_search_def Let_def)
  also have "\<dots> = card (set (map fst ?seen))"
    using inv distinct_card [of "map fst ?seen"] by simp
  also have "\<dots> = card (set (map row_program_id rows))"
    using inv by simp
  finally have 4: "total (semantic_search q rows) = card (set (map row_program_id rows))" .
  have 5: "results (semantic_search q
         [hit 5 (1 / 10) ''a'', hit 5 (3 / 10) ''b'', hit 7 (2 / 10) ''c''])
       = [make_result (hit 5 (1 / 10) ''a''), make_result (hit 7 (2 / 10) ''c'')]"
    by (simp add: semantic_search_def hit_def)
  from 1 2 3 4 5 show ?thesis by blast
qed

theorem semantic_search_dedup_witness:
  "sorted (map row_distance [hit 5 (1 / 10) ''a'', hit 7 (2 / 10) ''c'', hit 5 (3 / 10) ''b''])
   \<and> map (\<lambda>r. (program_id r, chunk_text r, similarity_score r))
        (results (semantic_search ''q''
           [hit 5 (1 / 10) ''a'', hit 7 (2 / 10) ''c'', hit 5 (3 / 10) ''b'']))
       = [(5, ''a'', 9 / 10), (7, ''c'', 8 / 10)]
   \<and> distinct (map program_id (results (semantic_search ''q''
           [hit 5 (1 / 10) ''a'', hit 7 (2 / 10) ''c'', hit 5 (3 / 10) ''b''])))
   \<and> total (semantic_search ''q''
           [hit 5 (1 / 10) ''a'', hit 7 (2 / 10) ''c'', hit 5 (3 / 10) ''b'']) = 2"
proof -
  let ?rows = "[hit 5 (1 / 10) ''a'', hit 7 (2 / 10) ''c'', hit 5 (3 / 10) ''b'']"
  have a: "sorted (map row_distance ?rows)"
    by (simp add: row_distance_def hit_def)
  have b: "map (\<lambda>r. (program_id r, chunk_text r, similarity_score r))
        (results (semantic_search ''q'' ?rows)) = [(5, ''a'', 9 / 10), (7, ''c'', 8 / 10)]"
    by (simp add: semantic_search_def hit_def make_result_def py_round4_def round_half_even_def)
  have c: "card (set (map row_program_id ?rows)) = 2"
    by (simp add: hit_def card_insert_if)
  from semantic_search_dedup [of "''q''" ?rows] a b c show ?thesis by simp
qed

text \<open>
  Claim C7. When retrieval yields no row, \<open>question_answer\<close> reports the not-found
  condition (status 404) and hands no prompt to the generative collaborator; a prompt is
  handed over exactly when at least one row was retrieved, and status 404 is reported in
  no other case.
\<close>

theorem question_answer_empty_guard:
  "question_answer llm q [] = (Inl (HTTPException 404 ''No relevant program data found.''), [])
   \<and> (snd (question_answer llm q rows) \<noteq> [] \<longleftrightarrow> rows \<noteq> [])
   \<and> (\<forall>e. fst (question_answer llm q rows) = Inl e \<and> status_code e = 404 \<longrightarrow> rows = [])"
  by (auto simp: question_answer_def Let_def split: sum.splits if_splits)

theorem question_answer_empty_guard_witness:
  "fst (question_answer (\<lambda>p. Inr '' yes '') ''Which?'' []) = Inl (HTTPException 404 ''No relevant program data found.'')
   \<and> snd (question_answer (\<lambda>p. Inr '' yes '') ''Which?'' []) = []
   \<and> (\<exists>r. fst (question_answer (\<lambda>p. Inr '' yes '') ''Which?'' [(''text'', ''Prog'', ''Inst'')]) = Inr r
         \<and> answer r = ''yes'')
   \<and> length (snd (question_answer (\<lambda>p. Inr '' yes '') ''Which?'' [(''text'', ''Prog'', ''Inst'')])) = 1"
proof -
  have a: "fst (question_answer (\<lambda>p. Inr '' yes '') ''Which?'' [(''text'', ''Prog'', ''Inst'')])
      = Inr \<lparr> qa_query = ''Which?'', answer = ''yes'',
           source_chunks = [''[Prog '' @ em_dash @ '' Inst]: text...''], num_sources = 1 \<rparr>"
    by (simp add: question_answer_def Let_def strip_def is_space_def)
  have b: "length (snd (question_answer (\<lambda>p. Inr '' yes '') ''Which?'' [(''text'', ''Prog'', ''Inst'')])) = 1"
    by (simp add: question_answer_def Let_def)
  from question_answer_empty_guard [of "\<lambda>p. Inr '' yes ''" "''Which?''" "[(''text'', ''Prog'', ''Inst'')]"]
    a b show ?thesis by simp
qed

end
